theory Spec2Isabelle
  imports Complex_Main "HOL-Library.AList"
begin

section \<open>JavaScript numbers\<close>

text \<open>
  The TypeScript type \<open>number\<close>. A finite number is idealised as an exact real:
  the sum, product and quotient of finite numbers are the exact ones, where the doubles
  of the source round them, overflow to an infinity and underflow to zero; the sign of
  zero is outside the model as well. The two infinities and NaN are kept, because the
  source divides by a scale that can be zero and JavaScript then continues with
  \<open>Infinity\<close> or \<open>NaN\<close> instead of raising. A zero divisor is read as \<open>+0\<close>,
  which is what the literal \<open>0\<close> denotes.
\<close>

datatype number = Fin real | PosInfinity | NegInfinity | NaN

text \<open>Unary minus.\<close>

fun nneg :: "number \<Rightarrow> number" where
  "nneg (Fin a) = Fin (- a)"
| "nneg PosInfinity = NegInfinity"
| "nneg NegInfinity = PosInfinity"
| "nneg NaN = NaN"

text \<open>The operator \<open>+\<close>: opposite infinities add up to NaN.\<close>

fun nadd :: "number \<Rightarrow> number \<Rightarrow> number" where
  "nadd NaN _ = NaN"
| "nadd _ NaN = NaN"
| "nadd (Fin a) (Fin b) = Fin (a + b)"
| "nadd PosInfinity NegInfinity = NaN"
| "nadd NegInfinity PosInfinity = NaN"
| "nadd PosInfinity _ = PosInfinity"
| "nadd NegInfinity _ = NegInfinity"
| "nadd (Fin a) b = b"

text \<open>The operator \<open>-\<close>.\<close>

definition nsub :: "number \<Rightarrow> number \<Rightarrow> number" where
  "nsub a b = nadd a (nneg b)"

text \<open>The sign of a number as a factor: \<open>0 * Infinity\<close> is NaN.\<close>

definition inf_times :: "real \<Rightarrow> number" where
  "inf_times a = (if 0 < a then PosInfinity else if a < 0 then NegInfinity else NaN)"

text \<open>The operator \<open>*\<close>.\<close>

fun nmul :: "number \<Rightarrow> number \<Rightarrow> number" where
  "nmul NaN _ = NaN"
| "nmul _ NaN = NaN"
| "nmul (Fin a) (Fin b) = Fin (a * b)"
| "nmul (Fin a) PosInfinity = inf_times a"
| "nmul (Fin a) NegInfinity = inf_times (- a)"
| "nmul PosInfinity (Fin b) = inf_times b"
| "nmul NegInfinity (Fin b) = inf_times (- b)"
| "nmul PosInfinity PosInfinity = PosInfinity"
| "nmul NegInfinity NegInfinity = PosInfinity"
| "nmul PosInfinity NegInfinity = NegInfinity"
| "nmul NegInfinity PosInfinity = NegInfinity"

text \<open>
  The operator \<open>/\<close>. A finite number over zero is an infinity of the sign of the
  numerator, \<open>0 / 0\<close> is NaN; nothing is raised.
\<close>

fun ndiv :: "number \<Rightarrow> number \<Rightarrow> number" where
  "ndiv NaN _ = NaN"
| "ndiv _ NaN = NaN"
| "ndiv (Fin a) (Fin b) = (if b = 0 then inf_times a else Fin (a / b))"
| "ndiv (Fin a) PosInfinity = Fin 0"
| "ndiv (Fin a) NegInfinity = Fin 0"
| "ndiv PosInfinity (Fin b) = (if b < 0 then NegInfinity else PosInfinity)"
| "ndiv NegInfinity (Fin b) = (if b < 0 then PosInfinity else NegInfinity)"
| "ndiv _ _ = NaN"

text \<open>The comparisons \<open><=\<close> and \<open><\<close>: every comparison with NaN is false.\<close>

fun nle :: "number \<Rightarrow> number \<Rightarrow> bool" where
  "nle NaN _ = False"
| "nle _ NaN = False"
| "nle (Fin a) (Fin b) = (a \<le> b)"
| "nle NegInfinity _ = True"
| "nle _ PosInfinity = True"
| "nle _ _ = False"

fun nlt :: "number \<Rightarrow> number \<Rightarrow> bool" where
  "nlt NaN _ = False"
| "nlt _ NaN = False"
| "nlt (Fin a) (Fin b) = (a < b)"
| "nlt PosInfinity _ = False"
| "nlt _ NegInfinity = False"
| "nlt _ _ = True"

text \<open>The comparisons \<open>>=\<close> and \<open>>\<close>.\<close>

definition nge :: "number \<Rightarrow> number \<Rightarrow> bool" where
  "nge a b = nle b a"

definition ngt :: "number \<Rightarrow> number \<Rightarrow> bool" where
  "ngt a b = nlt b a"

text \<open>\<open>Math.max\<close> and \<open>Math.min\<close> of two arguments: NaN if either is NaN.\<close>

fun Math_max :: "number \<Rightarrow> number \<Rightarrow> number" where
  "Math_max NaN _ = NaN"
| "Math_max _ NaN = NaN"
| "Math_max a b = (if nle a b then b else a)"

fun Math_min :: "number \<Rightarrow> number \<Rightarrow> number" where
  "Math_min NaN _ = NaN"
| "Math_min _ NaN = NaN"
| "Math_min a b = (if nle a b then a else b)"

text \<open>\<open>Math.floor\<close>, \<open>Math.ceil\<close> and \<open>Math.abs\<close>.\<close>

fun Math_floor :: "number \<Rightarrow> number" where
  "Math_floor (Fin a) = Fin (of_int \<lfloor>a\<rfloor>)"
| "Math_floor a = a"

fun Math_ceil :: "number \<Rightarrow> number" where
  "Math_ceil (Fin a) = Fin (of_int \<lceil>a\<rceil>)"
| "Math_ceil a = a"

fun Math_abs :: "number \<Rightarrow> number" where
  "Math_abs (Fin a) = Fin \<bar>a\<bar>"
| "Math_abs NegInfinity = PosInfinity"
| "Math_abs a = a"

section \<open>The viewport calculator (viewport-renderer.ts)\<close>

record ViewportInfo =
  x :: number
  y :: number
  width :: number
  height :: number
  scale :: number

text \<open>\<open>calculateViewport\<close>, statement by statement.\<close>

definition calculateViewport ::
  "number \<Rightarrow> number \<Rightarrow> number \<Rightarrow> number \<Rightarrow> number \<Rightarrow> number \<Rightarrow> number \<Rightarrow> ViewportInfo" where
  "calculateViewport containerWidth containerHeight imageWidth imageHeight zoom positionX positionY =
     (let scale = ndiv zoom (Fin 100);
          displayWidth = nmul imageWidth scale;
          displayHeight = nmul imageHeight scale;
          imgLeft = nadd (ndiv (nsub containerWidth displayWidth) (Fin 2)) positionX;
          imgTop = nadd (ndiv (nsub containerHeight displayHeight) (Fin 2)) positionY;
          viewportX = Math_max (Fin 0) (ndiv (nneg imgLeft) scale);
          viewportY = Math_max (Fin 0) (ndiv (nneg imgTop) scale);
          viewportWidth = Math_min (nsub imageWidth viewportX) (ndiv containerWidth scale);
          viewportHeight = Math_min (nsub imageHeight viewportY) (ndiv containerHeight scale)
      in \<lparr> x = viewportX, y = viewportY, width = viewportWidth, height = viewportHeight,
           scale = scale \<rparr>)"

record RenderRegion =
  sourceX :: number
  sourceY :: number
  sourceWidth :: number
  sourceHeight :: number
  destX :: number
  destY :: number
  destWidth :: number
  destHeight :: number

text \<open>The default of the parameter \<open>bufferRatio\<close>, the literal \<open>0.2\<close>.\<close>

definition bufferRatio_default :: number where
  "bufferRatio_default = Fin (2 / 10)"

text \<open>\<open>calculateRenderRegion\<close>; the caller that omits \<open>bufferRatio\<close> passes the default.\<close>

definition calculateRenderRegion ::
  "ViewportInfo \<Rightarrow> number \<Rightarrow> number \<Rightarrow> number \<Rightarrow> RenderRegion" where
  "calculateRenderRegion viewport imageWidth imageHeight bufferRatio =
     (let bufferX = nmul (width viewport) bufferRatio;
          bufferY = nmul (height viewport) bufferRatio;
          sourceX = Math_max (Fin 0) (Math_floor (nsub (ViewportInfo.x viewport) bufferX));
          sourceY = Math_max (Fin 0) (Math_floor (nsub (ViewportInfo.y viewport) bufferY));
          sourceWidth = Math_min (nsub imageWidth sourceX)
                          (Math_ceil (nadd (width viewport) (nmul bufferX (Fin 2))));
          sourceHeight = Math_min (nsub imageHeight sourceY)
                          (Math_ceil (nadd (height viewport) (nmul bufferY (Fin 2))))
      in \<lparr> sourceX = sourceX, sourceY = sourceY,
           sourceWidth = sourceWidth, sourceHeight = sourceHeight,
           destX = Fin 0, destY = Fin 0,
           destWidth = sourceWidth, destHeight = sourceHeight \<rparr>)"

text \<open>\<open>isPointInViewport\<close>; \<open>margin\<close> defaults to \<open>0\<close>.\<close>

definition isPointInViewport :: "number \<Rightarrow> number \<Rightarrow> ViewportInfo \<Rightarrow> number \<Rightarrow> bool" where
  "isPointInViewport px py viewport margin =
     (nge px (nsub (ViewportInfo.x viewport) margin) \<and>
      nle px (nadd (nadd (ViewportInfo.x viewport) (width viewport)) margin) \<and>
      nge py (nsub (ViewportInfo.y viewport) margin) \<and>
      nle py (nadd (nadd (ViewportInfo.y viewport) (height viewport)) margin))"

text \<open>
  The operations of \<open>filterOpsInViewport\<close> are of any type \<open>T extends {x, y}\<close>:
  an extensible record with the two coordinates.
\<close>

record Op =
  x :: number
  y :: number

text \<open>\<open>filterOpsInViewport\<close>; \<open>toolSize\<close> defaults to \<open>0\<close>.\<close>

definition filterOpsInViewport ::
  "'a Op_scheme list \<Rightarrow> ViewportInfo \<Rightarrow> number \<Rightarrow> 'a Op_scheme list" where
  "filterOpsInViewport ops viewport toolSize =
     (let margin = nmul toolSize (Fin 2)
      in filter (\<lambda>op. isPointInViewport (Op.x op) (Op.y op) viewport margin) ops)"

subsection \<open>The class ViewportRenderer\<close>

record ViewportRenderer =
  lastViewport :: "ViewportInfo option"
  renderRegion :: "RenderRegion option"
  needsFullRedraw :: bool

text \<open>The field initialisers: what \<open>new ViewportRenderer()\<close> is.\<close>

definition new_ViewportRenderer :: ViewportRenderer where
  "new_ViewportRenderer =
     \<lparr> lastViewport = None, renderRegion = None, needsFullRedraw = True \<rparr>"

text \<open>\<open>shouldRedraw\<close>; \<open>threshold\<close> defaults to \<open>0.1\<close>. It does not change the state.\<close>

definition threshold_default :: number where
  "threshold_default = Fin (1 / 10)"

definition shouldRedraw :: "ViewportRenderer \<Rightarrow> ViewportInfo \<Rightarrow> number \<Rightarrow> bool" where
  "shouldRedraw this newViewport threshold =
     (case lastViewport this of
        None \<Rightarrow> True
      | Some lastV \<Rightarrow>
          if needsFullRedraw this then True
          else
            (let deltaX = Math_abs (nsub (ViewportInfo.x newViewport) (ViewportInfo.x lastV));
                 deltaY = Math_abs (nsub (ViewportInfo.y newViewport) (ViewportInfo.y lastV));
                 deltaWidth = Math_abs (nsub (width newViewport) (width lastV));
                 deltaHeight = Math_abs (nsub (height newViewport) (height lastV));
                 deltaScale = Math_abs (nsub (scale newViewport) (scale lastV))
             in ngt deltaX (nmul (width newViewport) threshold) \<or>
                ngt deltaY (nmul (height newViewport) threshold) \<or>
                ngt deltaWidth (nmul (width newViewport) threshold) \<or>
                ngt deltaHeight (nmul (height newViewport) threshold) \<or>
                ngt deltaScale (Fin (1 / 100))))"

definition updateViewport ::
  "ViewportRenderer \<Rightarrow> ViewportInfo \<Rightarrow> number \<Rightarrow> number \<Rightarrow> ViewportRenderer" where
  "updateViewport this viewport imageWidth imageHeight =
     this\<lparr> lastViewport := Some viewport,
           renderRegion :=
             Some (calculateRenderRegion viewport imageWidth imageHeight bufferRatio_default),
           needsFullRedraw := False \<rparr>"

definition getRenderRegion :: "ViewportRenderer \<Rightarrow> RenderRegion option" where
  "getRenderRegion this = renderRegion this"

definition markDirty :: "ViewportRenderer \<Rightarrow> ViewportRenderer" where
  "markDirty this = this\<lparr> needsFullRedraw := True \<rparr>"

definition reset :: "ViewportRenderer \<Rightarrow> ViewportRenderer" where
  "reset this = this\<lparr> lastViewport := None, renderRegion := None, needsFullRedraw := True \<rparr>"

section \<open>The image cache (image-cache.ts)\<close>

text \<open>
  The class \<open>ImageCacheManager\<close>. The field \<open>cache\<close> is a JavaScript \<open>Map\<close>: an
  association list with one entry for each key, in insertion order. A string used as
  a condition is true unless it is \<open>undefined\<close> or the empty string.
\<close>

record ImageCacheManager =
  cache :: "(string \<times> string) list"
  maxSize :: nat
  accessOrder :: "string list"

definition truthy :: "string option \<Rightarrow> bool" where
  "truthy v = (case v of None \<Rightarrow> False | Some s \<Rightarrow> s \<noteq> [])"

text \<open>\<open>Map.has\<close>, \<open>Map.get\<close>, \<open>Map.set\<close>, \<open>Map.delete\<close> and \<open>Map.size\<close>.\<close>

definition Map_has :: "(string \<times> string) list \<Rightarrow> string \<Rightarrow> bool" where
  "Map_has m k = (map_of m k \<noteq> None)"

definition Map_get :: "(string \<times> string) list \<Rightarrow> string \<Rightarrow> string option" where
  "Map_get m k = map_of m k"

definition Map_set :: "(string \<times> string) list \<Rightarrow> string \<Rightarrow> string \<Rightarrow> (string \<times> string) list" where
  "Map_set m k v = AList.update k v m"

definition Map_delete :: "(string \<times> string) list \<Rightarrow> string \<Rightarrow> (string \<times> string) list" where
  "Map_delete m k = AList.delete k m"

definition Map_size :: "(string \<times> string) list \<Rightarrow> nat" where
  "Map_size m = length m"

text \<open>The field initialisers: \<open>new ImageCacheManager()\<close>, the exported \<open>imageCache\<close>.\<close>

definition imageCache :: ImageCacheManager where
  "imageCache = \<lparr> cache = [], maxSize = 10000, accessOrder = [] \<rparr>"

text \<open>
  \<open>updateAccessOrder\<close>: \<open>indexOf\<close> finds the first occurrence of the key,
  \<open>splice(index, 1)\<close> removes it, \<open>push\<close> appends the key.
\<close>

definition updateAccessOrder :: "ImageCacheManager \<Rightarrow> string \<Rightarrow> ImageCacheManager" where
  "updateAccessOrder this key =
     this\<lparr> accessOrder :=
             (if key \<in> set (accessOrder this) then remove1 key (accessOrder this)
              else accessOrder this) @ [key] \<rparr>"

text \<open>
  \<open>get\<close> returns the value (\<open>None\<close> for \<open>undefined\<close>) and the cache it leaves
  behind; the condition \<open>if (value)\<close> is the truth of the value.
\<close>

definition get :: "ImageCacheManager \<Rightarrow> string \<Rightarrow> string option \<times> ImageCacheManager" where
  "get this key =
     (let value = Map_get (cache this) key
      in (value, if truthy value then updateAccessOrder this key else this))"

text \<open>
  The method \<open>set\<close>, under the name \<open>set_entry\<close> (\<open>set\<close> is the set of the
  elements of a list). \<open>shift()\<close> removes and returns the first element of
  \<open>accessOrder\<close>, or returns \<open>undefined\<close> on the empty array; the condition
  \<open>if (oldestKey)\<close> is the truth of that string.
\<close>

definition set_entry :: "ImageCacheManager \<Rightarrow> string \<Rightarrow> string \<Rightarrow> ImageCacheManager" where
  "set_entry this key value =
     (let this1 =
            (if Map_size (cache this) \<ge> maxSize this \<and> \<not> Map_has (cache this) key then
               (case accessOrder this of
                  [] \<Rightarrow> this
                | oldestKey # rest \<Rightarrow>
                    (let shifted = this\<lparr> accessOrder := rest \<rparr>
                     in if truthy (Some oldestKey)
                        then shifted\<lparr> cache := Map_delete (cache shifted) oldestKey \<rparr>
                        else shifted))
             else this);
          this2 = this1\<lparr> cache := Map_set (cache this1) key value \<rparr>
      in updateAccessOrder this2 key)"

definition has :: "ImageCacheManager \<Rightarrow> string \<Rightarrow> bool" where
  "has this key = Map_has (cache this) key"

definition clear :: "ImageCacheManager \<Rightarrow> ImageCacheManager" where
  "clear this = this\<lparr> cache := [], accessOrder := [] \<rparr>"

definition getSize :: "ImageCacheManager \<Rightarrow> nat" where
  "getSize this = Map_size (cache this)"

section \<open>Vocabulary of the properties\<close>

text \<open>
  A rectangle given by its corner and its size, as the set of the points it covers:
  half-open, as \<open>[0, imageWidth) \<times> [0, imageHeight)\<close> is.
\<close>

definition in_rect :: "number \<Rightarrow> number \<Rightarrow> number \<Rightarrow> number \<Rightarrow> real \<Rightarrow> real \<Rightarrow> bool" where
  "in_rect rx ry rw rh p q =
     (nle rx (Fin p) \<and> nlt (Fin p) (nadd rx rw) \<and> nle ry (Fin q) \<and> nlt (Fin q) (nadd ry rh))"

text \<open>
  The membership test of the culling contract in the words of the specification:
  the point lies in \<open>[vx - 2 margin, vx + vw + 2 margin] \<times> [vy - 2 margin, vy + vh + 2 margin]\<close>.
  It is compared with \<open>filterOpsInViewport\<close> below.
\<close>

definition kept_by_spec :: "ViewportInfo \<Rightarrow> number \<Rightarrow> number \<Rightarrow> number \<Rightarrow> bool" where
  "kept_by_spec viewport marginBase px py =
     (nle (nsub (ViewportInfo.x viewport) (nmul (Fin 2) marginBase)) px \<and>
      nle px (nadd (nadd (ViewportInfo.x viewport) (width viewport)) (nmul (Fin 2) marginBase)) \<and>
      nle (nsub (ViewportInfo.y viewport) (nmul (Fin 2) marginBase)) py \<and>
      nle py (nadd (nadd (ViewportInfo.y viewport) (height viewport)) (nmul (Fin 2) marginBase)))"

text \<open>Membership in the closed viewport, in the words of the specification.\<close>

definition in_closed_viewport :: "ViewportInfo \<Rightarrow> number \<Rightarrow> number \<Rightarrow> bool" where
  "in_closed_viewport viewport px py =
     (nle (ViewportInfo.x viewport) px \<and>
      nle px (nadd (ViewportInfo.x viewport) (width viewport)) \<and>
      nle (ViewportInfo.y viewport) py \<and>
      nle py (nadd (ViewportInfo.y viewport) (height viewport)))"

text \<open>The calls that change a \<open>ViewportRenderer\<close>, and a sequence of them run in order.\<close>

datatype renderer_call = UpdateViewport ViewportInfo number number | MarkDirty | Reset

fun is_update :: "renderer_call \<Rightarrow> bool" where
  "is_update (UpdateViewport v iw ih) = True"
| "is_update c = False"

fun renderer_step :: "ViewportRenderer \<Rightarrow> renderer_call \<Rightarrow> ViewportRenderer" where
  "renderer_step this (UpdateViewport v iw ih) = updateViewport this v iw ih"
| "renderer_step this MarkDirty = markDirty this"
| "renderer_step this Reset = reset this"

text \<open>The calls on an \<open>ImageCacheManager\<close>; only \<open>get\<close>, \<open>set\<close> and \<open>clear\<close> change it.\<close>

datatype cache_call = Get string | Set string string | Has string | Clear | GetSize

fun cache_step :: "ImageCacheManager \<Rightarrow> cache_call \<Rightarrow> ImageCacheManager" where
  "cache_step this (Get key) = snd (get this key)"
| "cache_step this (Set key value) = set_entry this key value"
| "cache_step this (Has key) = this"
| "cache_step this Clear = clear this"
| "cache_step this GetSize = this"

fun sets_key :: "cache_call \<Rightarrow> string \<Rightarrow> bool" where
  "sets_key (Set key value) k = (key = k)"
| "sets_key c k = False"

text \<open>A run of \<open>set\<close> calls, one for each pair of a list.\<close>

definition set_all :: "ImageCacheManager \<Rightarrow> (string \<times> string) list \<Rightarrow> ImageCacheManager" where
  "set_all this kvs = foldl (\<lambda>c (k, v). set_entry c k v) this kvs"

text \<open>
  The invariant of the cache: the map has one entry for each key, \<open>accessOrder\<close> lists
  the keys of the map, each once, and the map holds at most \<open>maxSize\<close> entries.
\<close>

definition cache_inv :: "ImageCacheManager \<Rightarrow> bool" where
  "cache_inv this =
     (distinct (map fst (cache this)) \<and> distinct (accessOrder this) \<and>
      set (accessOrder this) = fst ` set (cache this) \<and>
      Map_size (cache this) \<le> maxSize this)"

text \<open>
  Pairwise distinct keys for the examples: the key number \<open>n\<close> is \<open>n\<close> letters long,
  so that the key number \<open>0\<close> is the empty string. \<open>test_pair\<close> gives every key the
  value \<open>v\<close>, \<open>test_pair_empty2\<close> gives the key number \<open>2\<close> the empty string as value.
\<close>

definition test_key :: "nat \<Rightarrow> string" where
  "test_key n = replicate n (CHR ''k'')"

definition test_pair :: "nat \<Rightarrow> string \<times> string" where
  "test_pair n = (test_key n, ''v'')"

definition test_pair_empty2 :: "nat \<Rightarrow> string \<times> string" where
  "test_pair_empty2 n = (test_key n, if n = 2 then [] else ''v'')"

section \<open>The viewport of calculateViewport\<close>

lemma Math_max_Fin: "Math_max (Fin a) (Fin b) = Fin (max a b)"
  by (simp add: max_def)

lemma Math_min_Fin: "Math_min (Fin a) (Fin b) = Fin (min a b)"
  by (simp add: min_def)

text \<open>On finite arguments and a zoom other than zero every step of
  \<open>calculateViewport\<close> stays finite in the arithmetic of the model.\<close>

lemma calculateViewport_Fin:
  assumes "zoom \<noteq> 0"
  shows "calculateViewport (Fin cw) (Fin ch) (Fin iw) (Fin ih) (Fin zoom) (Fin px) (Fin py) =
     \<lparr> ViewportInfo.x = Fin (max 0 (- ((cw - iw * (zoom / 100)) / 2 + px) / (zoom / 100))),
       y = Fin (max 0 (- ((ch - ih * (zoom / 100)) / 2 + py) / (zoom / 100))),
       width = Fin (min (iw - max 0 (- ((cw - iw * (zoom / 100)) / 2 + px) / (zoom / 100)))
                        (cw / (zoom / 100))),
       height = Fin (min (ih - max 0 (- ((ch - ih * (zoom / 100)) / 2 + py) / (zoom / 100)))
                         (ch / (zoom / 100))),
       scale = Fin (zoom / 100) \<rparr>"
  using assms
  unfolding calculateViewport_def Let_def nsub_def
  by (simp only: ndiv.simps nmul.simps nadd.simps nneg.simps Math_max_Fin Math_min_Fin
        divide_eq_0_iff) simp

lemma add_min_diff_le: "a + min (c - a) b \<le> (c::real)"
  by simp

subsection \<open>One axis of the viewport\<close>

text \<open>
  On each axis the viewport is \<open>x = Math.max(0, q)\<close> and
  \<open>width = Math.min(image - x, b)\<close>, where \<open>q\<close> and \<open>b\<close> are the two quotients by the
  scale. The facts below hold of every \<open>q\<close> and \<open>b\<close> that are not NaN, finite or not:
  they use the order of \<open>Math.max\<close> and \<open>Math.min\<close> and one subtraction from a finite
  number, and nothing of how the quotients were computed, so they do not depend on the
  quotients being exact, in range or rounded.
\<close>

lemma calculateViewport_axes:
  "calculateViewport cw ch iw ih zoom px py =
     \<lparr> ViewportInfo.x =
         Math_max (Fin 0)
           (ndiv (nneg (nadd (ndiv (nsub cw (nmul iw (ndiv zoom (Fin 100)))) (Fin 2)) px))
              (ndiv zoom (Fin 100))),
       y =
         Math_max (Fin 0)
           (ndiv (nneg (nadd (ndiv (nsub ch (nmul ih (ndiv zoom (Fin 100)))) (Fin 2)) py))
              (ndiv zoom (Fin 100))),
       width =
         Math_min
           (nsub iw
              (Math_max (Fin 0)
                 (ndiv (nneg (nadd (ndiv (nsub cw (nmul iw (ndiv zoom (Fin 100)))) (Fin 2)) px))
                    (ndiv zoom (Fin 100)))))
           (ndiv cw (ndiv zoom (Fin 100))),
       height =
         Math_min
           (nsub ih
              (Math_max (Fin 0)
                 (ndiv (nneg (nadd (ndiv (nsub ch (nmul ih (ndiv zoom (Fin 100)))) (Fin 2)) py))
                    (ndiv zoom (Fin 100)))))
           (ndiv ch (ndiv zoom (Fin 100))),
       scale = ndiv zoom (Fin 100) \<rparr>"
  by (simp add: calculateViewport_def Let_def)

lemma axis_origin_nonneg: "q \<noteq> NaN \<Longrightarrow> nge (Math_max (Fin 0) q) (Fin 0)"
  by (cases q) (simp_all add: nge_def)

lemma axis_span_le:
  "q \<noteq> NaN \<Longrightarrow> b \<noteq> NaN \<Longrightarrow>
     nle (Math_min (nsub (Fin i) (Math_max (Fin 0) q)) b) (nsub (Fin i) (Math_max (Fin 0) q))"
  by (cases q; cases b) (simp_all add: nsub_def)


lemma axis_span_nonpos:
  "q \<noteq> NaN \<Longrightarrow> b \<noteq> NaN \<Longrightarrow> nle b (Fin 0) \<or> i \<le> 0 \<Longrightarrow>
     nle (Math_min (nsub (Fin i) (Math_max (Fin 0) q)) b) (Fin 0)"
  by (cases q; cases b) (auto simp: nsub_def)

lemma axis_span_zero:
  "q \<noteq> NaN \<Longrightarrow> nle (Fin 0) b \<Longrightarrow> b = Fin 0 \<or> i = 0 \<Longrightarrow>
     nle (Math_max (Fin 0) q) (Fin i) \<Longrightarrow>
     Math_min (nsub (Fin i) (Math_max (Fin 0) q)) b = Fin 0"
  by (cases q; cases b) (auto simp: nsub_def)

text \<open>
  What the model adds for finite arguments and a zoom other than zero: the numerator of
  the first quotient and both quotients are finite, and the second quotient has the sign
  of the container size over the scale.
\<close>

lemma quotient_q_Fin:
  assumes "zoom \<noteq> 0"
  shows "\<exists>q. ndiv (nneg (nadd (ndiv (nsub (Fin c) (nmul (Fin i) (ndiv (Fin zoom) (Fin 100))))
                               (Fin 2)) (Fin p)))
                (ndiv (Fin zoom) (Fin 100)) = Fin q"
  using assms by (simp add: nsub_def)

lemma quotient_b_Fin:
  assumes "zoom \<noteq> 0"
  shows "ndiv (Fin c) (ndiv (Fin zoom) (Fin 100)) = Fin (c / (zoom / 100))"
  using assms by simp

text \<open>
  C1, as stated, fails. With an image of infinite width, a number that is \<open>> 0\<close>, the
  displayed width is infinite, the viewport starts at \<open>x = Infinity\<close> and its width is
  NaN, so that \<open>x + width \<le> imageWidth\<close> is false. A finite image width whose
  displayed width overflows reaches the same \<open>x\<close> in the source (the arithmetic of
  the model, exact on finite numbers, does not overflow).
\<close>

theorem calculateViewport_infinite_image:
  "ngt (Fin 100) (Fin 0) \<and> ngt PosInfinity (Fin 0) \<and>
   calculateViewport (Fin 100) (Fin 100) PosInfinity (Fin 100) (Fin 100) (Fin 0) (Fin 0) =
     \<lparr> ViewportInfo.x = PosInfinity, y = Fin 0, width = NaN, height = Fin 100,
       scale = Fin 1 \<rparr> \<and>
   \<not> nle (nadd (ViewportInfo.x (calculateViewport (Fin 100) (Fin 100) PosInfinity (Fin 100)
                                   (Fin 100) (Fin 0) (Fin 0)))
                 (width (calculateViewport (Fin 100) (Fin 100) PosInfinity (Fin 100)
                           (Fin 100) (Fin 0) (Fin 0))))
          PosInfinity"
  by (simp add: calculateViewport_def Let_def nsub_def inf_times_def ngt_def)

text \<open>
  C1, amended. For positive finite container and image sizes, a finite zoom of at least
  \<open>1e-300\<close> and any finite pan offset, the viewport of \<open>calculateViewport\<close> has
  \<open>x \<ge> 0\<close>, \<open>y \<ge> 0\<close>, \<open>width \<le> imageWidth - x\<close> and
  \<open>height \<le> imageHeight - y\<close>, the differences being the ones the code computes.
\<close>

theorem calculateViewport_origin_and_span:
  assumes "0 < cw" "0 < ch" "0 < iw" "0 < ih" "1 / 10 ^ 300 \<le> zoom"
  shows "let v = calculateViewport (Fin cw) (Fin ch) (Fin iw) (Fin ih) (Fin zoom) (Fin px) (Fin py)
         in nge (ViewportInfo.x v) (Fin 0) \<and> nge (ViewportInfo.y v) (Fin 0) \<and>
            nle (width v) (nsub (Fin iw) (ViewportInfo.x v)) \<and>
            nle (height v) (nsub (Fin ih) (ViewportInfo.y v))"
proof -
  have "(0::real) < 1 / 10 ^ 300" by simp
  with assms(5) have z: "zoom \<noteq> 0" by linarith
  obtain q where q: "ndiv (nneg (nadd (ndiv (nsub (Fin cw) (nmul (Fin iw) (ndiv (Fin zoom) (Fin 100))))
      (Fin 2)) (Fin px))) (ndiv (Fin zoom) (Fin 100)) = Fin q"
    using quotient_q_Fin [OF z] by blast
  obtain r where r: "ndiv (nneg (nadd (ndiv (nsub (Fin ch) (nmul (Fin ih) (ndiv (Fin zoom) (Fin 100))))
      (Fin 2)) (Fin py))) (ndiv (Fin zoom) (Fin 100)) = Fin r"
    using quotient_q_Fin [OF z] by blast
  have n: "Fin a \<noteq> NaN" for a by simp
  show ?thesis
    unfolding Let_def calculateViewport_axes ViewportInfo.simps q r quotient_b_Fin [OF z]
    by (intro conjI axis_origin_nonneg axis_span_le n)
qed

theorem calculateViewport_origin_and_span_witness:
  "let v = calculateViewport (Fin 800) (Fin 600) (Fin 4096) (Fin 4096) (Fin 100) (Fin 0) (Fin 0)
   in v = \<lparr> ViewportInfo.x = Fin 1648, y = Fin 1748, width = Fin 800, height = Fin 600,
            scale = Fin 1 \<rparr> \<and>
      nge (ViewportInfo.x v) (Fin 0) \<and> nge (ViewportInfo.y v) (Fin 0) \<and>
      nle (width v) (nsub (Fin 4096) (ViewportInfo.x v)) \<and>
      nle (height v) (nsub (Fin 4096) (ViewportInfo.y v))"
  using calculateViewport_origin_and_span
    [where cw = 800 and ch = 600 and iw = 4096 and ih = 4096 and zoom = 100 and px = 0 and py = 0]
  by (simp add: calculateViewport_Fin Let_def nsub_def)




text \<open>
  C10, as stated, fails. At zoom 0 the divisions by the scale give infinities, and the
  viewport of an 800 by 600 container on a 4096 by 4096 image is the whole image; at
  zoom \<open>-100\<close> it is 800 by 600 with both signs reversed; a container of \<open>-100\<close> by
  \<open>-100\<close> on an image of 100 by 100 at zoom 100 gives \<open>-100\<close> by \<open>-100\<close>.
\<close>

theorem calculateViewport_degenerate_counterexample:
  "calculateViewport (Fin 800) (Fin 600) (Fin 4096) (Fin 4096) (Fin 0) (Fin 0) (Fin 0) =
     \<lparr> ViewportInfo.x = Fin 0, y = Fin 0, width = Fin 4096, height = Fin 4096,
       scale = Fin 0 \<rparr> \<and>
   width (calculateViewport (Fin 800) (Fin 600) (Fin 4096) (Fin 4096) (Fin 0) (Fin 0) (Fin 0))
     \<noteq> Fin 0 \<and>
   calculateViewport (Fin 800) (Fin 600) (Fin 4096) (Fin 4096) (Fin (- 100)) (Fin 0) (Fin 0) =
     \<lparr> ViewportInfo.x = Fin 2448, y = Fin 2348, width = Fin (- 800), height = Fin (- 600),
       scale = Fin (- 1) \<rparr> \<and>
   width (calculateViewport (Fin 800) (Fin 600) (Fin 4096) (Fin 4096) (Fin (- 100)) (Fin 0)
            (Fin 0)) \<noteq> Fin 0 \<and>
   calculateViewport (Fin (- 100)) (Fin (- 100)) (Fin 100) (Fin 100) (Fin 100) (Fin 0) (Fin 0) =
     \<lparr> ViewportInfo.x = Fin 100, y = Fin 100, width = Fin (- 100), height = Fin (- 100),
       scale = Fin 1 \<rparr> \<and>
   width (calculateViewport (Fin (- 100)) (Fin (- 100)) (Fin 100) (Fin 100) (Fin 100) (Fin 0)
            (Fin 0)) \<noteq> Fin 0"
  by (simp add: calculateViewport_def Let_def nsub_def inf_times_def)

text \<open>
  C10, amended. \<open>calculateViewport\<close> raises nothing on any input. For finite arguments
  and a zoom of at least \<open>1e-300\<close>, a container or image width that is zero or negative
  gives a viewport of width \<open>\<le> 0\<close>, and the width is exactly \<open>0\<close> when one of the two
  widths is zero, the container width is not negative and the \<open>x\<close> of the viewport is
  at most \<open>imageWidth\<close>; the same holds of the heights and \<open>y\<close>. Nothing of the kind
  holds of a zoom that is zero or negative.
\<close>

theorem calculateViewport_degenerate_size:
  assumes "1 / 10 ^ 300 \<le> zoom"
  shows "let v = calculateViewport (Fin cw) (Fin ch) (Fin iw) (Fin ih) (Fin zoom) (Fin px) (Fin py)
         in (cw \<le> 0 \<or> iw \<le> 0 \<longrightarrow> nle (width v) (Fin 0)) \<and>
            (ch \<le> 0 \<or> ih \<le> 0 \<longrightarrow> nle (height v) (Fin 0)) \<and>
            ((cw = 0 \<or> iw = 0) \<and> 0 \<le> cw \<and> nle (ViewportInfo.x v) (Fin iw)
               \<longrightarrow> width v = Fin 0) \<and>
            ((ch = 0 \<or> ih = 0) \<and> 0 \<le> ch \<and> nle (ViewportInfo.y v) (Fin ih)
               \<longrightarrow> height v = Fin 0)"
proof -
  have "(0::real) < 1 / 10 ^ 300" by simp
  with assms have zp: "0 < zoom" by linarith
  then have z: "zoom \<noteq> 0" by simp
  obtain q where q: "ndiv (nneg (nadd (ndiv (nsub (Fin cw) (nmul (Fin iw) (ndiv (Fin zoom) (Fin 100))))
      (Fin 2)) (Fin px))) (ndiv (Fin zoom) (Fin 100)) = Fin q"
    using quotient_q_Fin [OF z] by blast
  obtain r where r: "ndiv (nneg (nadd (ndiv (nsub (Fin ch) (nmul (Fin ih) (ndiv (Fin zoom) (Fin 100))))
      (Fin 2)) (Fin py))) (ndiv (Fin zoom) (Fin 100)) = Fin r"
    using quotient_q_Fin [OF z] by blast
  have n: "Fin a \<noteq> NaN" for a by simp
  have sgn: "nle (Fin (c / (zoom / 100))) (Fin 0) \<longleftrightarrow> c \<le> 0"
    "nle (Fin 0) (Fin (c / (zoom / 100))) \<longleftrightarrow> 0 \<le> c"
    "Fin (c / (zoom / 100)) = Fin 0 \<longleftrightarrow> c = 0" for c
    using zp by (simp_all add: divide_le_0_iff zero_le_divide_iff)
  have nonpos: "nle (Math_min (nsub (Fin i) (Math_max (Fin 0) (Fin t))) (Fin (c / (zoom / 100))))
                  (Fin 0)"
    if "c \<le> 0 \<or> i \<le> 0" for c i t
    by (intro axis_span_nonpos n) (use that sgn in blast)
  have zero: "Math_min (nsub (Fin i) (Math_max (Fin 0) (Fin t))) (Fin (c / (zoom / 100))) = Fin 0"
    if "c = 0 \<or> i = 0" "0 \<le> c" "nle (Math_max (Fin 0) (Fin t)) (Fin i)" for c i t
    by (intro axis_span_zero n) (use that sgn in blast)+
  show ?thesis
    unfolding Let_def calculateViewport_axes ViewportInfo.simps q r quotient_b_Fin [OF z]
    using nonpos zero by blast
qed

theorem calculateViewport_degenerate_size_witness:
  "let v = calculateViewport (Fin 0) (Fin 0) (Fin 16) (Fin 16) (Fin 100) (Fin 0) (Fin 0)
   in v = \<lparr> ViewportInfo.x = Fin 8, y = Fin 8, width = Fin 0, height = Fin 0, scale = Fin 1 \<rparr> \<and>
      nle (ViewportInfo.x v) (Fin 16) \<and> nle (ViewportInfo.y v) (Fin 16) \<and>
      nle (width v) (Fin 0) \<and> nle (height v) (Fin 0) \<and> width v = Fin 0 \<and> height v = Fin 0"
  using calculateViewport_degenerate_size
    [where zoom = 100 and cw = 0 and ch = 0 and iw = 16 and ih = 16 and px = 0 and py = 0]
  by (simp add: calculateViewport_Fin Let_def)

section \<open>The source rectangle of calculateRenderRegion\<close>

lemma calculateRenderRegion_Fin:
  "calculateRenderRegion
     \<lparr> ViewportInfo.x = Fin vx, y = Fin vy, width = Fin vw, height = Fin vh, scale = vs \<rparr>
     (Fin iw) (Fin ih) (Fin b) =
   \<lparr> sourceX = Fin (max 0 (of_int \<lfloor>vx - vw * b\<rfloor>)),
     sourceY = Fin (max 0 (of_int \<lfloor>vy - vh * b\<rfloor>)),
     sourceWidth = Fin (min (iw - max 0 (of_int \<lfloor>vx - vw * b\<rfloor>)) (of_int \<lceil>vw + vw * b * 2\<rceil>)),
     sourceHeight = Fin (min (ih - max 0 (of_int \<lfloor>vy - vh * b\<rfloor>)) (of_int \<lceil>vh + vh * b * 2\<rceil>)),
     destX = Fin 0, destY = Fin 0,
     destWidth = Fin (min (iw - max 0 (of_int \<lfloor>vx - vw * b\<rfloor>)) (of_int \<lceil>vw + vw * b * 2\<rceil>)),
     destHeight = Fin (min (ih - max 0 (of_int \<lfloor>vy - vh * b\<rfloor>)) (of_int \<lceil>vh + vh * b * 2\<rceil>)) \<rparr>"
  unfolding calculateRenderRegion_def Let_def nsub_def
  by (simp only: ViewportInfo.simps nmul.simps nadd.simps nneg.simps Math_floor.simps
        Math_ceil.simps Math_max_Fin Math_min_Fin) simp

text \<open>
  C9, as stated, fails: the image is centred, so the viewport of the scenario does not
  start at the origin, and the buffer of a fifth is added on both sides, so the
  rectangle of the viewport of the scenario is not 960 by 720.
\<close>

theorem scenario_counterexample:
  "calculateViewport (Fin 800) (Fin 600) (Fin 4096) (Fin 4096) (Fin 100) (Fin 0) (Fin 0) \<noteq>
     \<lparr> ViewportInfo.x = Fin 0, y = Fin 0, width = Fin 800, height = Fin 600, scale = Fin 1 \<rparr> \<and>
   sourceWidth (calculateRenderRegion
      \<lparr> ViewportInfo.x = Fin 0, y = Fin 0, width = Fin 800, height = Fin 600, scale = Fin 1 \<rparr>
      (Fin 4096) (Fin 4096) bufferRatio_default) \<noteq> Fin 960 \<and>
   sourceHeight (calculateRenderRegion
      \<lparr> ViewportInfo.x = Fin 0, y = Fin 0, width = Fin 800, height = Fin 600, scale = Fin 1 \<rparr>
      (Fin 4096) (Fin 4096) bufferRatio_default) \<noteq> Fin 720"
  by (simp add: calculateViewport_Fin calculateRenderRegion_Fin bufferRatio_default_def)

text \<open>
  C9, amended. \<open>calculateViewport(800, 600, 4096, 4096, 100, 0, 0)\<close> is the viewport
  \<open>{x: 1648, y: 1748, width: 800, height: 600, scale: 1}\<close>; \<open>calculateRenderRegion\<close>
  with the default buffer ratio on a 4096 by 4096 image turns it into the source
  rectangle \<open>{1488, 1628, 1120, 840}\<close>, and turns the viewport
  \<open>{x: 0, y: 0, width: 800, height: 600, scale: 1}\<close> into \<open>{0, 0, 1120, 840}\<close>.
\<close>

theorem scenario_values:
  "calculateViewport (Fin 800) (Fin 600) (Fin 4096) (Fin 4096) (Fin 100) (Fin 0) (Fin 0) =
     \<lparr> ViewportInfo.x = Fin 1648, y = Fin 1748, width = Fin 800, height = Fin 600,
       scale = Fin 1 \<rparr> \<and>
   calculateRenderRegion
      (calculateViewport (Fin 800) (Fin 600) (Fin 4096) (Fin 4096) (Fin 100) (Fin 0) (Fin 0))
      (Fin 4096) (Fin 4096) bufferRatio_default =
     \<lparr> sourceX = Fin 1488, sourceY = Fin 1628, sourceWidth = Fin 1120, sourceHeight = Fin 840,
       destX = Fin 0, destY = Fin 0, destWidth = Fin 1120, destHeight = Fin 840 \<rparr> \<and>
   calculateRenderRegion
      \<lparr> ViewportInfo.x = Fin 0, y = Fin 0, width = Fin 800, height = Fin 600, scale = Fin 1 \<rparr>
      (Fin 4096) (Fin 4096) bufferRatio_default =
     \<lparr> sourceX = Fin 0, sourceY = Fin 0, sourceWidth = Fin 1120, sourceHeight = Fin 840,
       destX = Fin 0, destY = Fin 0, destWidth = Fin 1120, destHeight = Fin 840 \<rparr>"
  by (simp add: calculateViewport_Fin calculateRenderRegion_Fin bufferRatio_default_def)

text \<open>One axis of the source rectangle, for the default buffer ratio.\<close>

lemma source_axis:
  fixes a w i :: real
  assumes "0 \<le> a" "0 \<le> w" "a + w \<le> i"
  defines "sx \<equiv> max 0 (of_int \<lfloor>a - w * (2 / 10)\<rfloor>)"
  defines "sw \<equiv> min (i - sx) (of_int \<lceil>w + w * (2 / 10) * 2\<rceil>)"
  shows "0 \<le> sx" and "sx + sw \<le> i" and "sx \<le> a" and "a + w < sx + sw + 1"
    and "5 \<le> w \<Longrightarrow> a + w \<le> sx + sw"
proof -
  define fl where "fl = (of_int \<lfloor>a - w * (2 / 10)\<rfloor> :: real)"
  define ce where "ce = (of_int \<lceil>w + w * (2 / 10) * 2\<rceil> :: real)"
  have f1: "fl \<le> a - w * (2 / 10)"
    unfolding fl_def by (rule of_int_floor_le)
  have f2: "a - w * (2 / 10) < fl + 1"
    unfolding fl_def by (rule real_of_int_floor_add_one_gt)
  have c1: "w + w * (2 / 10) * 2 \<le> ce"
    unfolding ce_def by (rule le_of_int_ceiling)
  have sx: "sx = max 0 fl" by (simp only: sx_def fl_def)
  have sw: "sw = min (i - sx) ce" by (simp only: sw_def ce_def)
  show "0 \<le> sx" unfolding sx by (rule max.cobounded1)
  show "sx + sw \<le> i" unfolding sw by (rule add_min_diff_le)
  have "fl \<le> a" using f1 assms(2) by linarith
  with assms(1) show "sx \<le> a" unfolding sx by (rule max.boundedI)
  have lo: "fl \<le> sx" unfolding sx by (rule max.cobounded2)
  have sum: "sx + sw = min i (sx + ce)"
    unfolding sw by linarith
  have "a + w < sx + ce + 1"
    using lo f2 c1 assms(2) by linarith
  then show "a + w < sx + sw + 1"
    unfolding sum using assms(3) by linarith
  show "a + w \<le> sx + sw" if "5 \<le> w"
  proof -
    have "a + w \<le> sx + ce"
      using lo f2 c1 that by linarith
    then show ?thesis
      unfolding sum using assms(3) by linarith
  qed
qed

text \<open>
  C2, as stated, fails. A container of 80 by 80 on an image of 16 by 16 at zoom 6400,
  panned by 344 and 472, shows the viewport
  \<open>{x: 2, y: 0, width: 1.25, height: 1.25}\<close>, which meets the invariants; its
  source rectangle is \<open>{1, 0, 2, 2}\<close> and ends at \<open>x = 3\<close>, before
  the viewport does: the point \<open>(3.1, 0.5)\<close> of the viewport and of the image is
  outside it.
\<close>

theorem calculateRenderRegion_under_renders:
  "calculateViewport (Fin 80) (Fin 80) (Fin 16) (Fin 16) (Fin 6400) (Fin 344) (Fin 472) =
     \<lparr> ViewportInfo.x = Fin 2, y = Fin 0, width = Fin (5 / 4), height = Fin (5 / 4),
       scale = Fin 64 \<rparr> \<and>
   nge (Fin 2) (Fin 0) \<and> nge (Fin 0) (Fin 0) \<and> nge (Fin (5 / 4)) (Fin 0) \<and>
   nle (nadd (Fin 2) (Fin (5 / 4))) (Fin 16) \<and> nle (nadd (Fin 0) (Fin (5 / 4))) (Fin 16) \<and>
   ngt (Fin 64) (Fin 0) \<and>
   calculateRenderRegion
     \<lparr> ViewportInfo.x = Fin 2, y = Fin 0, width = Fin (5 / 4), height = Fin (5 / 4),
       scale = Fin 64 \<rparr> (Fin 16) (Fin 16) bufferRatio_default =
     \<lparr> sourceX = Fin 1, sourceY = Fin 0, sourceWidth = Fin 2, sourceHeight = Fin 2,
       destX = Fin 0, destY = Fin 0, destWidth = Fin 2, destHeight = Fin 2 \<rparr> \<and>
   in_rect (Fin 2) (Fin 0) (Fin (5 / 4)) (Fin (5 / 4)) (31 / 10) (1 / 2) \<and>
   in_rect (Fin 0) (Fin 0) (Fin 16) (Fin 16) (31 / 10) (1 / 2) \<and>
   \<not> in_rect (Fin 1) (Fin 0) (Fin 2) (Fin 2) (31 / 10) (1 / 2)"
  by (simp add: calculateViewport_Fin calculateRenderRegion_Fin bufferRatio_default_def
        in_rect_def nge_def ngt_def)

text \<open>
  C2, amended. For a finite viewport that meets the invariants (\<open>x, y, width, height \<ge> 0\<close>,
  \<open>x + width \<le> imageWidth\<close>, \<open>y + height \<le> imageHeight\<close>, \<open>scale > 0\<close>) and the
  default buffer ratio, the source rectangle lies within the image
  (\<open>sourceX, sourceY \<ge> 0\<close>, \<open>sourceX + sourceWidth \<le> imageWidth\<close>,
  \<open>sourceY + sourceHeight \<le> imageHeight\<close>), starts at or before the viewport on both
  axes and ends less than one unit before the end of the viewport, if before it at all.
  It covers the viewport intersected with the image when the viewport is at least 5
  wide and 5 high.
\<close>

theorem calculateRenderRegion_bounds:
  assumes "0 \<le> vx" "0 \<le> vy" "0 \<le> vw" "0 \<le> vh" "vx + vw \<le> iw" "vy + vh \<le> ih" "0 < vs"
  shows "let v = \<lparr> ViewportInfo.x = Fin vx, y = Fin vy, width = Fin vw, height = Fin vh,
                   scale = Fin vs \<rparr>;
             r = calculateRenderRegion v (Fin iw) (Fin ih) bufferRatio_default
         in nge (sourceX r) (Fin 0) \<and> nge (sourceY r) (Fin 0) \<and>
            nle (nadd (sourceX r) (sourceWidth r)) (Fin iw) \<and>
            nle (nadd (sourceY r) (sourceHeight r)) (Fin ih) \<and>
            nle (sourceX r) (ViewportInfo.x v) \<and> nle (sourceY r) (ViewportInfo.y v) \<and>
            nlt (nadd (ViewportInfo.x v) (width v))
                (nadd (nadd (sourceX r) (sourceWidth r)) (Fin 1)) \<and>
            nlt (nadd (ViewportInfo.y v) (height v))
                (nadd (nadd (sourceY r) (sourceHeight r)) (Fin 1)) \<and>
            (5 \<le> vw \<and> 5 \<le> vh \<longrightarrow>
               (\<forall>p q. in_rect (ViewportInfo.x v) (ViewportInfo.y v) (width v) (height v) p q \<and>
                      in_rect (Fin 0) (Fin 0) (Fin iw) (Fin ih) p q \<longrightarrow>
                      in_rect (sourceX r) (sourceY r) (sourceWidth r) (sourceHeight r) p q))"
proof -
  note X = source_axis [OF assms(1) assms(3) assms(5)]
  note Y = source_axis [OF assms(2) assms(4) assms(6)]
  show ?thesis
    unfolding Let_def bufferRatio_default_def calculateRenderRegion_Fin in_rect_def nge_def
    apply (simp only: ViewportInfo.simps RenderRegion.simps nle.simps nlt.simps nadd.simps)
    using X Y by (intro conjI impI allI) (simp_all only:, linarith+)
qed

theorem calculateRenderRegion_bounds_witness:
  "let r = calculateRenderRegion
             \<lparr> ViewportInfo.x = Fin 1648, y = Fin 1748, width = Fin 800, height = Fin 600,
               scale = Fin 1 \<rparr> (Fin 4096) (Fin 4096) bufferRatio_default
   in r = \<lparr> sourceX = Fin 1488, sourceY = Fin 1628, sourceWidth = Fin 1120,
            sourceHeight = Fin 840, destX = Fin 0, destY = Fin 0, destWidth = Fin 1120,
            destHeight = Fin 840 \<rparr> \<and>
      nge (sourceX r) (Fin 0) \<and> nge (sourceY r) (Fin 0) \<and>
      nle (nadd (sourceX r) (sourceWidth r)) (Fin 4096) \<and>
      nle (nadd (sourceY r) (sourceHeight r)) (Fin 4096) \<and>
      nle (sourceX r) (Fin 1648) \<and> nle (sourceY r) (Fin 1748) \<and>
      in_rect (Fin 1648) (Fin 1748) (Fin 800) (Fin 600) 2000 2000 \<and>
      in_rect (sourceX r) (sourceY r) (sourceWidth r) (sourceHeight r) 2000 2000"
  using calculateRenderRegion_bounds [of 1648 1748 800 600 4096 4096 1]
  by (simp add: calculateRenderRegion_Fin bufferRatio_default_def in_rect_def nge_def Let_def)

section \<open>Culling\<close>

lemma nmul_commute: "nmul a b = nmul b a"
  by (cases a; cases b) (simp_all add: mult.commute)

lemma nsub_zero: "nsub a (Fin 0) = a"
  by (cases a) (simp_all add: nsub_def)

lemma nadd_zero: "nadd a (Fin 0) = a"
  by (cases a) simp_all

text \<open>
  C8. \<open>filterOpsInViewport\<close> keeps, in their order, exactly the operations whose point
  lies in \<open>[vx - 2 marginBase, vx + vw + 2 marginBase]\<close> by
  \<open>[vy - 2 marginBase, vy + vh + 2 marginBase]\<close>; it maps the empty sequence to the
  empty sequence; with \<open>marginBase = 0\<close> it is the membership test of the closed
  viewport.
\<close>

theorem filterOpsInViewport_exact:
  "filterOpsInViewport ops viewport marginBase =
     filter (\<lambda>op. kept_by_spec viewport marginBase (Op.x op) (Op.y op)) ops \<and>
   filterOpsInViewport [] viewport marginBase = [] \<and>
   filterOpsInViewport ops viewport (Fin 0) =
     filter (\<lambda>op. in_closed_viewport viewport (Op.x op) (Op.y op)) ops"
  by (simp add: filterOpsInViewport_def isPointInViewport_def kept_by_spec_def
        in_closed_viewport_def nge_def nmul_commute [of marginBase] nsub_zero nadd_zero Let_def)

section \<open>The redraw decision\<close>

lemma lastViewport_no_update:
  "lastViewport this = None \<Longrightarrow> list_all (\<lambda>c. \<not> is_update c) cs \<Longrightarrow>
     lastViewport (foldl renderer_step this cs) = None"
proof (induction cs arbitrary: this)
  case Nil
  then show ?case by simp
next
  case (Cons c cs)
  from Cons.prems have "lastViewport (renderer_step this c) = None"
    by (cases c) (simp_all add: markDirty_def reset_def)
  with Cons show ?case by simp
qed

text \<open>
  C7. For every viewport and threshold \<open>shouldRedraw\<close> is true on a new
  \<open>ViewportRenderer\<close>, after \<open>reset\<close>, after \<open>markDirty\<close>, and after any sequence of
  calls from a new one among which there is no \<open>updateViewport\<close>.
\<close>

theorem shouldRedraw_forced:
  "shouldRedraw new_ViewportRenderer v t \<and>
   shouldRedraw (reset this) v t \<and>
   shouldRedraw (markDirty this) v t \<and>
   (list_all (\<lambda>c. \<not> is_update c) cs \<longrightarrow>
      shouldRedraw (foldl renderer_step new_ViewportRenderer cs) v t)"
proof -
  have "lastViewport (foldl renderer_step new_ViewportRenderer cs) = None"
    if "list_all (\<lambda>c. \<not> is_update c) cs"
    using that by (intro lastViewport_no_update) (simp_all add: new_ViewportRenderer_def)
  then show ?thesis
    by (simp add: shouldRedraw_def new_ViewportRenderer_def reset_def markDirty_def
          split: option.split)
qed

theorem shouldRedraw_forced_witness:
  "list_all (\<lambda>c. \<not> is_update c) [MarkDirty, Reset, MarkDirty] \<and>
   shouldRedraw (foldl renderer_step new_ViewportRenderer [MarkDirty, Reset, MarkDirty])
     \<lparr> ViewportInfo.x = Fin 0, y = Fin 0, width = Fin 800, height = Fin 600, scale = Fin 1 \<rparr>
     threshold_default \<and>
   shouldRedraw (markDirty (updateViewport new_ViewportRenderer
       \<lparr> ViewportInfo.x = Fin 0, y = Fin 0, width = Fin 800, height = Fin 600, scale = Fin 1 \<rparr>
       (Fin 4096) (Fin 4096)))
     \<lparr> ViewportInfo.x = Fin 0, y = Fin 0, width = Fin 800, height = Fin 600, scale = Fin 1 \<rparr>
     threshold_default"
  using shouldRedraw_forced [of
      "\<lparr> ViewportInfo.x = Fin 0, y = Fin 0, width = Fin 800, height = Fin 600, scale = Fin 1 \<rparr>"
      threshold_default
      "updateViewport new_ViewportRenderer
         \<lparr> ViewportInfo.x = Fin 0, y = Fin 0, width = Fin 800, height = Fin 600, scale = Fin 1 \<rparr>
         (Fin 4096) (Fin 4096)"
      "[MarkDirty, Reset, MarkDirty]"]
  by simp

text \<open>
  C6, as stated, fails. An image of 1000 by 100 in a container of 100 by 100 at zoom
  100, panned by \<open>-1000\<close> along y, has a viewport of height \<open>-900\<close>; panning it by
  \<open>-5\<close> along x moves the viewport by 5, less than a tenth of its width 100, and changes
  nothing else, yet \<open>shouldRedraw\<close> is true, because \<open>0 > height * threshold\<close>.
\<close>

theorem shouldRedraw_small_pan_counterexample:
  "calculateViewport (Fin 100) (Fin 100) (Fin 1000) (Fin 100) (Fin 100) (Fin 0) (Fin (- 1000)) =
     \<lparr> ViewportInfo.x = Fin 450, y = Fin 1000, width = Fin 100, height = Fin (- 900),
       scale = Fin 1 \<rparr> \<and>
   calculateViewport (Fin 100) (Fin 100) (Fin 1000) (Fin 100) (Fin 100) (Fin (- 5)) (Fin (- 1000)) =
     \<lparr> ViewportInfo.x = Fin 455, y = Fin 1000, width = Fin 100, height = Fin (- 900),
       scale = Fin 1 \<rparr> \<and>
   nlt (Math_abs (nsub (Fin 455) (Fin 450))) (nmul (Fin 100) threshold_default) \<and>
   shouldRedraw
     (updateViewport new_ViewportRenderer
        \<lparr> ViewportInfo.x = Fin 450, y = Fin 1000, width = Fin 100, height = Fin (- 900),
          scale = Fin 1 \<rparr> (Fin 1000) (Fin 100))
     \<lparr> ViewportInfo.x = Fin 455, y = Fin 1000, width = Fin 100, height = Fin (- 900),
       scale = Fin 1 \<rparr> threshold_default"
  by (simp add: calculateViewport_Fin shouldRedraw_def updateViewport_def new_ViewportRenderer_def
        threshold_default_def Let_def nsub_def ngt_def)

text \<open>
  C6, amended. After \<open>updateViewport\<close> with a viewport \<open>v\<close>, for a threshold \<open>t\<close> and a
  new viewport that differs from \<open>v\<close> only in \<open>x\<close>, with
  \<open>|x' - x| < width * t\<close> and with \<open>height * t\<close> not negative (as it is for a
  viewport of non-negative height and a threshold that is not negative),
  \<open>shouldRedraw\<close> is false.
\<close>

theorem shouldRedraw_small_pan:
  assumes "nlt (Math_abs (nsub nx (ViewportInfo.x v))) (nmul (width v) t)"
    and "\<not> nlt (nmul (height v) t) (Fin 0)"
  shows "\<not> shouldRedraw (updateViewport this v iw ih) (v\<lparr> ViewportInfo.x := nx \<rparr>) t"
proof -
  have self: "\<not> nlt b (Math_abs (nsub a a))" if "\<not> nlt b (Fin 0)" for a b
    using that by (cases a; cases b) (simp_all add: nsub_def)
  have asym: "\<not> nlt b a" if "nlt a b" for a b
    using that by (cases a; cases b) simp_all
  have pos: "\<not> nlt b (Fin 0)" if "nlt (Math_abs a) b" for a b
    using that by (cases a; cases b) simp_all
  have "\<not> nlt (Fin (1 / 100)) (Fin 0)" by simp
  with assms show ?thesis
    by (simp add: shouldRedraw_def updateViewport_def ngt_def Let_def self asym pos)
qed

theorem shouldRedraw_small_pan_witness:
  "nlt (Math_abs (nsub (Fin 1650) (Fin 1648))) (nmul (Fin 800) threshold_default) \<and>
   \<not> nlt (nmul (Fin 600) threshold_default) (Fin 0) \<and>
   \<not> shouldRedraw
       (updateViewport new_ViewportRenderer
          \<lparr> ViewportInfo.x = Fin 1648, y = Fin 1748, width = Fin 800, height = Fin 600,
            scale = Fin 1 \<rparr> (Fin 4096) (Fin 4096))
       \<lparr> ViewportInfo.x = Fin 1650, y = Fin 1748, width = Fin 800, height = Fin 600,
         scale = Fin 1 \<rparr> threshold_default"
  using shouldRedraw_small_pan [of "Fin 1650"
      "\<lparr> ViewportInfo.x = Fin 1648, y = Fin 1748, width = Fin 800, height = Fin 600,
         scale = Fin 1 \<rparr>"
      threshold_default new_ViewportRenderer "Fin 4096" "Fin 4096"]
  by (simp add: threshold_default_def nsub_def)

section \<open>The cache\<close>

subsection \<open>The map as an association list\<close>

lemma update_new: "k \<notin> fst ` set al \<Longrightarrow> AList.update k v al = al @ [(k, v)]"
  by (induction al) auto

lemma delete_head: "k \<notin> fst ` set al \<Longrightarrow> AList.delete k ((k, v) # al) = al"
  by (simp add: AList.delete_simps)

lemma Map_has_iff: "Map_has m k \<longleftrightarrow> k \<in> fst ` set m"
  by (simp add: Map_has_def map_of_eq_None_iff)

lemma length_delete:
  "distinct (map fst al) \<Longrightarrow> k \<in> fst ` set al \<Longrightarrow> Suc (length (AList.delete k al)) = length al"
proof (induction al)
  case Nil
  then show ?case by simp
next
  case (Cons p al)
  show ?case
  proof (cases "fst p = k")
    case True
    with Cons.prems have "k \<notin> fst ` set al" by auto
    then have "AList.delete k al = al" by simp
    with True show ?thesis by (simp add: AList.delete_simps)
  next
    case False
    with Cons show ?thesis by (auto simp: AList.delete_simps)
  qed
qed

lemma length_update:
  "length (AList.update k v al) = (if k \<in> fst ` set al then length al else Suc (length al))"
  by (induction al) auto

lemma count_list_distinct:
  "distinct xs \<Longrightarrow> count_list xs k = (if k \<in> set xs then 1 else 0)"
  by (induction xs) auto

subsection \<open>The invariant, when no key is the empty string\<close>

lemma set_entry_inv:
  assumes "cache_inv this" "[] \<notin> set (accessOrder this)" "key \<noteq> []" "1 \<le> maxSize this"
  shows "cache_inv (set_entry this key value) \<and> [] \<notin> set (accessOrder (set_entry this key value))
         \<and> maxSize (set_entry this key value) = maxSize this"
proof (cases "Map_size (cache this) \<ge> maxSize this \<and> \<not> Map_has (cache this) key")
  case False
  then have len: "key \<notin> fst ` set (cache this) \<Longrightarrow> length (cache this) < maxSize this"
    by (auto simp: Map_has_iff Map_size_def)
  from False have eq: "set_entry this key value =
      updateAccessOrder (this\<lparr> cache := Map_set (cache this) key value \<rparr>) key"
    by (simp only: set_entry_def Let_def if_False)
  show ?thesis
    unfolding eq using assms len
    by (auto simp: cache_inv_def updateAccessOrder_def Map_set_def Map_size_def
          AList.distinct_update AList.dom_update length_update)
next
  case True
  then have full: "maxSize this \<le> length (cache this)" and new: "key \<notin> fst ` set (cache this)"
    by (auto simp: Map_has_iff Map_size_def)
  from full assms(4) have "cache this \<noteq> []" by auto
  with assms(1) have "accessOrder this \<noteq> []" by (auto simp: cache_inv_def)
  then obtain oldestKey rest where ord: "accessOrder this = oldestKey # rest"
    by (cases "accessOrder this") auto
  with assms(2) have ne: "oldestKey \<noteq> []" by auto
  from ord assms(1) have old: "oldestKey \<in> fst ` set (cache this)" "oldestKey \<notin> set rest"
    "distinct rest" "set rest = fst ` set (cache this) - {oldestKey}"
    by (auto simp: cache_inv_def)
  have eq: "set_entry this key value =
      updateAccessOrder (this\<lparr> accessOrder := rest,
         cache := Map_set (Map_delete (cache this) oldestKey) key value \<rparr>) key"
    using True ord ne by (simp add: set_entry_def Let_def truthy_def)
  from assms(1) have d: "distinct (map fst (cache this))" by (simp add: cache_inv_def)
  have len: "Suc (length (AList.delete oldestKey (cache this))) = length (cache this)"
    using d old(1) by (rule length_delete)
  have knew: "key \<notin> fst ` set (AList.delete oldestKey (cache this))"
    using new by (auto simp: AList.delete_eq)
  from assms(1) have le: "length (cache this) \<le> maxSize this"
    by (simp add: cache_inv_def Map_size_def)
  have keys: "fst ` set (AList.delete oldestKey (cache this)) = fst ` set (cache this) - {oldestKey}"
    by (auto simp: AList.delete_eq)
  have "key \<notin> set rest" using old(4) new by auto
  then show ?thesis
    unfolding eq using assms(2,3) ord old d len knew le keys
    by (auto simp: cache_inv_def updateAccessOrder_def Map_set_def Map_delete_def Map_size_def
          update_new AList.distinct_delete)
qed

lemma get_inv:
  assumes "cache_inv this" "[] \<notin> set (accessOrder this)"
  shows "cache_inv (snd (get this key)) \<and> [] \<notin> set (accessOrder (snd (get this key)))
         \<and> maxSize (snd (get this key)) = maxSize this"
proof (cases "truthy (Map_get (cache this) key)")
  case False
  with assms show ?thesis by (simp add: get_def Let_def)
next
  case True
  then have "key \<in> fst ` set (cache this)"
    by (auto simp: truthy_def Map_get_def split: option.splits dest: map_of_SomeD intro: rev_image_eqI)
  with assms have "key \<in> set (accessOrder this)" by (simp add: cache_inv_def)
  with True assms show ?thesis
    by (auto simp: get_def Let_def cache_inv_def updateAccessOrder_def)
qed

lemma cache_step_inv:
  assumes "cache_inv this" "[] \<notin> set (accessOrder this)" "\<not> sets_key c []" "1 \<le> maxSize this"
  shows "cache_inv (cache_step this c) \<and> [] \<notin> set (accessOrder (cache_step this c))
         \<and> maxSize (cache_step this c) = maxSize this"
proof (cases c)
  case (Get key)
  with get_inv [OF assms(1,2)] show ?thesis by simp
next
  case (Set key "value")
  with assms(3) have "key \<noteq> []" by simp
  from set_entry_inv [OF assms(1,2) this assms(4)] Set show ?thesis by simp
next
  case Clear
  with assms show ?thesis by (simp add: clear_def cache_inv_def Map_size_def)
qed (use assms in simp_all)

lemma cache_steps_inv:
  assumes "cache_inv this" "[] \<notin> set (accessOrder this)" "list_all (\<lambda>c. \<not> sets_key c []) calls"
    "1 \<le> maxSize this"
  shows "cache_inv (foldl cache_step this calls) \<and>
         maxSize (foldl cache_step this calls) = maxSize this"
  using assms
proof (induction calls arbitrary: this)
  case Nil
  then show ?case by simp
next
  case (Cons c calls)
  from Cons.prems have "\<not> sets_key c []" by simp
  from cache_step_inv [OF Cons.prems(1,2) this Cons.prems(4)] Cons.prems(3,4)
  have "cache_inv (foldl cache_step (cache_step this c) calls) \<and>
        maxSize (foldl cache_step (cache_step this c) calls) = maxSize (cache_step this c)"
    by (intro Cons.IH) simp_all
  with cache_step_inv [OF Cons.prems(1,2) \<open>\<not> sets_key c []\<close> Cons.prems(4)]
  show ?case by simp
qed

text \<open>
  Every sequence of calls from the empty cache of a capacity of at least one, with no
  \<open>set\<close> on the empty string, keeps the size within \<open>maxSize\<close> and lists every key
  of the map exactly once in \<open>accessOrder\<close>, and no other key.
\<close>

theorem cache_bounded_nonempty_keys:
  assumes "1 \<le> m" "list_all (\<lambda>c. \<not> sets_key c []) calls"
  shows "let c = foldl cache_step \<lparr> cache = [], maxSize = m, accessOrder = [] \<rparr> calls
         in getSize c \<le> m \<and> (\<forall>k. count_list (accessOrder c) k = (if has c k then 1 else 0))"
proof -
  let ?c = "foldl cache_step \<lparr> cache = [], maxSize = m, accessOrder = [] \<rparr> calls"
  have "cache_inv ?c \<and> maxSize ?c = maxSize \<lparr> cache = [], maxSize = m, accessOrder = [] \<rparr>"
    using assms by (intro cache_steps_inv) (simp_all add: cache_inv_def Map_size_def)
  then have inv: "cache_inv ?c" and m: "maxSize ?c = m" by simp_all
  have "count_list (accessOrder ?c) k = (if has ?c k then 1 else 0)" for k
    using inv by (simp add: cache_inv_def has_def Map_has_iff count_list_distinct)
  with inv m show ?thesis by (simp add: cache_inv_def getSize_def)
qed

theorem cache_bounded_nonempty_keys_example:
  "let c = foldl cache_step \<lparr> cache = [], maxSize = 2, accessOrder = [] \<rparr>
             [Set ''a'' ''1'', Set ''b'' ''2'', Get ''a'', Set ''c'' ''3'', Has ''b'', GetSize]
   in c = \<lparr> cache = [(''a'', ''1''), (''c'', ''3'')], maxSize = 2, accessOrder = [''a'', ''c''] \<rparr> \<and>
      getSize c \<le> 2 \<and> count_list (accessOrder c) ''a'' = 1 \<and> count_list (accessOrder c) ''b'' = 0"
  using cache_bounded_nonempty_keys [where m = 2 and
      calls = "[Set ''a'' ''1'', Set ''b'' ''2'', Get ''a'', Set ''c'' ''3'', Has ''b'', GetSize]"]
  by (simp add: set_entry_def get_def Let_def Map_size_def Map_has_def Map_set_def Map_get_def
        Map_delete_def truthy_def updateAccessOrder_def getSize_def)

subsection \<open>Single steps on a cache whose order of access is the order of insertion\<close>

lemma set_entry_append:
  assumes "k \<notin> fst ` set al" "length al < m"
  shows "set_entry \<lparr> cache = al, maxSize = m, accessOrder = map fst al \<rparr> k v =
         \<lparr> cache = al @ [(k, v)], maxSize = m, accessOrder = map fst (al @ [(k, v)]) \<rparr>"
  using assms
  by (simp add: set_entry_def Let_def Map_size_def Map_set_def updateAccessOrder_def update_new)

lemma set_entry_evict:
  assumes "distinct (map fst ((k1, v1) # al))" "k \<notin> fst ` set ((k1, v1) # al)"
    "m \<le> Suc (length al)" "k1 \<noteq> []"
  shows "set_entry \<lparr> cache = (k1, v1) # al, maxSize = m, accessOrder = k1 # ks \<rparr> k v =
         \<lparr> cache = al @ [(k, v)], maxSize = m,
           accessOrder = (if k \<in> set ks then remove1 k ks else ks) @ [k] \<rparr>"
proof -
  from assms(1) have "k1 \<notin> fst ` set al" by auto
  then have "AList.delete k1 ((k1, v1) # al) = al" by (rule delete_head)
  moreover from assms(2) have "k \<notin> fst ` set al" by auto
  ultimately show ?thesis
    using assms(2,3,4)
    by (simp add: set_entry_def Let_def Map_size_def Map_has_iff Map_set_def Map_delete_def
          truthy_def updateAccessOrder_def update_new del: AList.delete_simps)
qed

text \<open>The oldest key is the empty string: it leaves \<open>accessOrder\<close> and stays in the map.\<close>

lemma set_entry_overflow:
  assumes "k \<notin> fst ` set (([], v1) # al)" "m \<le> Suc (length al)"
  shows "set_entry \<lparr> cache = ([], v1) # al, maxSize = m, accessOrder = [] # ks \<rparr> k v =
         \<lparr> cache = ([], v1) # al @ [(k, v)], maxSize = m,
           accessOrder = (if k \<in> set ks then remove1 k ks else ks) @ [k] \<rparr>"
  using assms
  by (auto simp: set_entry_def Let_def Map_size_def Map_has_iff Map_set_def
        truthy_def updateAccessOrder_def update_new)

text \<open>A hit on an empty value does not touch \<open>accessOrder\<close>; a hit on any other does.\<close>

lemma get_refresh_skipped:
  assumes "map_of al k = Some []"
  shows "get \<lparr> cache = al, maxSize = m, accessOrder = ks \<rparr> k =
         (Some [], \<lparr> cache = al, maxSize = m, accessOrder = ks \<rparr>)"
  using assms by (simp add: get_def Let_def Map_get_def truthy_def)

lemma get_refresh:
  assumes "map_of al k = Some v" "v \<noteq> []"
  shows "get \<lparr> cache = al, maxSize = m, accessOrder = ks \<rparr> k =
         (Some v, \<lparr> cache = al, maxSize = m,
                    accessOrder = (if k \<in> set ks then remove1 k ks else ks) @ [k] \<rparr>)"
  using assms by (simp add: get_def Let_def Map_get_def truthy_def updateAccessOrder_def)

subsection \<open>Filling the cache\<close>

lemma set_all_fill:
  assumes "distinct (map fst (al @ kvs))" "length al + length kvs \<le> m"
  shows "set_all \<lparr> cache = al, maxSize = m, accessOrder = map fst al \<rparr> kvs =
         \<lparr> cache = al @ kvs, maxSize = m, accessOrder = map fst (al @ kvs) \<rparr>"
  using assms
proof (induction kvs arbitrary: al)
  case Nil
  then show ?case by (simp add: set_all_def)
next
  case (Cons kv kvs)
  obtain k v where kv: "kv = (k, v)" by (cases kv)
  from Cons.prems kv have new: "k \<notin> fst ` set al" and len: "length al < m" by auto
  have "set_all \<lparr> cache = al, maxSize = m, accessOrder = map fst al \<rparr> (kv # kvs) =
        set_all \<lparr> cache = al @ [(k, v)], maxSize = m, accessOrder = map fst (al @ [(k, v)]) \<rparr> kvs"
    unfolding set_all_def kv by (simp only: foldl.simps prod.case set_entry_append [OF new len])
  also have "\<dots> = \<lparr> cache = (al @ [(k, v)]) @ kvs, maxSize = m,
                     accessOrder = map fst ((al @ [(k, v)]) @ kvs) \<rparr>"
    using Cons.prems kv by (intro Cons.IH) simp_all
  finally show ?case by (simp add: kv)
qed

lemma set_all_snoc: "set_all this (kvs @ [(k, v)]) = set_entry (set_all this kvs) k v"
  by (simp add: set_all_def)

text \<open>One pair more than the cache holds: the first pair is dropped, if its key is not
  the empty string.\<close>

lemma set_all_evicts_first:
  assumes "distinct (map fst ((k1, v1) # al @ [(k, v)]))" "length al + 1 = m" "k1 \<noteq> []"
  shows "set_all \<lparr> cache = [], maxSize = m, accessOrder = [] \<rparr> ((k1, v1) # al @ [(k, v)]) =
         \<lparr> cache = al @ [(k, v)], maxSize = m, accessOrder = map fst (al @ [(k, v)]) \<rparr>"
proof -
  have "set_all \<lparr> cache = [], maxSize = m, accessOrder = [] \<rparr> ((k1, v1) # al) =
        \<lparr> cache = (k1, v1) # al, maxSize = m, accessOrder = k1 # map fst al \<rparr>"
    using set_all_fill [of "[]" "(k1, v1) # al" m] assms(1,2) by simp
  then have "set_all \<lparr> cache = [], maxSize = m, accessOrder = [] \<rparr> (((k1, v1) # al) @ [(k, v)]) =
        set_entry \<lparr> cache = (k1, v1) # al, maxSize = m, accessOrder = k1 # map fst al \<rparr> k v"
    unfolding set_all_snoc by simp
  also have "\<dots> = \<lparr> cache = al @ [(k, v)], maxSize = m,
      accessOrder = (if k \<in> set (map fst al) then remove1 k (map fst al) else map fst al) @ [k] \<rparr>"
    using assms by (intro set_entry_evict) auto
  finally show ?thesis using assms(1) by auto
qed

lemma set_all_evicts_oldest:
  assumes "distinct (map fst ((k1, v1) # al))" "length al = m" "1 \<le> m" "k1 \<noteq> []"
  shows "set_all \<lparr> cache = [], maxSize = m, accessOrder = [] \<rparr> ((k1, v1) # al) =
         \<lparr> cache = al, maxSize = m, accessOrder = map fst al \<rparr>"
proof -
  from assms(2,3) have "al \<noteq> []" by auto
  then have al: "al = butlast al @ [(fst (last al), snd (last al))]" by simp
  have "set_all \<lparr> cache = [], maxSize = m, accessOrder = [] \<rparr>
          ((k1, v1) # butlast al @ [(fst (last al), snd (last al))]) =
        \<lparr> cache = butlast al @ [(fst (last al), snd (last al))], maxSize = m,
          accessOrder = map fst (butlast al @ [(fst (last al), snd (last al))]) \<rparr>"
  proof (rule set_all_evicts_first)
    show "distinct (map fst ((k1, v1) # butlast al @ [(fst (last al), snd (last al))]))"
      using assms(1) al by simp
    show "length (butlast al) + 1 = m" using assms(2,3) by simp
    show "k1 \<noteq> []" by (rule assms(4))
  qed
  with al show ?thesis by simp
qed

text \<open>The same with the empty string as first key: nothing is dropped.\<close>

lemma set_all_overflows:
  assumes "distinct (map fst (([], v1) # al @ [(k, v)]))" "length al + 1 = m"
  shows "set_all \<lparr> cache = [], maxSize = m, accessOrder = [] \<rparr> (([], v1) # al @ [(k, v)]) =
         \<lparr> cache = ([], v1) # al @ [(k, v)], maxSize = m, accessOrder = map fst (al @ [(k, v)]) \<rparr>"
proof -
  have "set_all \<lparr> cache = [], maxSize = m, accessOrder = [] \<rparr> (([], v1) # al) =
        \<lparr> cache = ([], v1) # al, maxSize = m, accessOrder = [] # map fst al \<rparr>"
    using set_all_fill [of "[]" "([], v1) # al" m] assms(1,2) by simp
  then have "set_all \<lparr> cache = [], maxSize = m, accessOrder = [] \<rparr> ((([], v1) # al) @ [(k, v)]) =
        set_entry \<lparr> cache = ([], v1) # al, maxSize = m, accessOrder = [] # map fst al \<rparr> k v"
    unfolding set_all_snoc by simp
  also have "\<dots> = \<lparr> cache = ([], v1) # al @ [(k, v)], maxSize = m,
      accessOrder = (if k \<in> set (map fst al) then remove1 k (map fst al) else map fst al) @ [k] \<rparr>"
    using assms by (intro set_entry_overflow) auto
  finally show ?thesis using assms(1) by auto
qed

subsection \<open>The example keys\<close>

lemma test_key_eq_iff: "test_key a = test_key b \<longleftrightarrow> a = b"
proof
  assume "test_key a = test_key b"
  then have "length (test_key a) = length (test_key b)" by simp
  then show "a = b" by (simp add: test_key_def)
qed simp

lemma test_key_Nil_iff: "test_key a = [] \<longleftrightarrow> a = 0"
  by (simp add: test_key_def)

lemma inj_test_key: "inj_on test_key A"
  by (rule inj_onI) (simp add: test_key_eq_iff)

lemma distinct_test_keys: "distinct ns \<Longrightarrow> distinct (map test_key ns)"
  by (simp add: distinct_map inj_test_key)

subsection \<open>The bound on the size\<close>

lemma overflow_general:
  assumes "1 \<le> m"
  shows "set_all \<lparr> cache = [], maxSize = m, accessOrder = [] \<rparr> (map test_pair [0..<Suc m]) =
         \<lparr> cache = map test_pair [0..<Suc m], maxSize = m,
           accessOrder = map test_key [1..<Suc m] \<rparr>"
proof -
  from assms have split: "[0..<Suc m] = 0 # [1..<m] @ [m]"
    by (simp add: upt_conv_Cons)
  have t0: "test_key 0 = []" by (simp add: test_key_def)
  have "distinct (map test_key (0 # [1..<m] @ [m]))"
    unfolding split [symmetric] by (rule distinct_test_keys) simp
  then have d: "distinct (map fst (([], ''v'') # map test_pair [1..<m] @ [(test_key m, ''v'')]))"
    by (simp add: t0 o_def test_pair_def)
  have len: "length (map test_pair [1..<m]) + 1 = m" using assms by simp
  have "set_all \<lparr> cache = [], maxSize = m, accessOrder = [] \<rparr>
          (([], ''v'') # map test_pair [1..<m] @ [(test_key m, ''v'')]) =
        \<lparr> cache = ([], ''v'') # map test_pair [1..<m] @ [(test_key m, ''v'')], maxSize = m,
          accessOrder = map fst (map test_pair [1..<m] @ [(test_key m, ''v'')]) \<rparr>"
    using d len by (rule set_all_overflows)
  then show ?thesis unfolding split using assms by (simp add: t0 o_def test_pair_def)
qed

lemma overflow_props:
  assumes "1 \<le> m"
  shows "getSize (set_all \<lparr> cache = [], maxSize = m, accessOrder = [] \<rparr>
                    (map test_pair [0..<Suc m])) = Suc m \<and>
         maxSize (set_all \<lparr> cache = [], maxSize = m, accessOrder = [] \<rparr>
                    (map test_pair [0..<Suc m])) = m \<and>
         has (set_all \<lparr> cache = [], maxSize = m, accessOrder = [] \<rparr>
                (map test_pair [0..<Suc m])) (test_key 0) \<and>
         test_key 0 \<notin> set (accessOrder (set_all \<lparr> cache = [], maxSize = m, accessOrder = [] \<rparr>
                                           (map test_pair [0..<Suc m])))"
  unfolding overflow_general [OF assms]
  by (auto simp: getSize_def Map_size_def has_def Map_has_iff test_key_eq_iff image_iff
        test_pair_def)

text \<open>
  C5 fails on the code. After \<open>set\<close> on the empty string and on 10000 further keys
  the exported cache of capacity 10000 holds 10001 entries, and the empty string, a key
  of the map, is not in \<open>accessOrder\<close>. The same with capacity 2 and the keys
  \<open>''\<close>, \<open>b\<close>, \<open>c\<close>, step by step.
\<close>

theorem cache_exceeds_maxSize:
  "(getSize (set_all \<lparr> cache = [], maxSize = 10000, accessOrder = [] \<rparr>
               (map test_pair [0..<Suc 10000])) = Suc 10000 \<and>
    maxSize (set_all \<lparr> cache = [], maxSize = 10000, accessOrder = [] \<rparr>
               (map test_pair [0..<Suc 10000])) = 10000 \<and>
    has (set_all \<lparr> cache = [], maxSize = 10000, accessOrder = [] \<rparr>
           (map test_pair [0..<Suc 10000])) (test_key 0) \<and>
    test_key 0 \<notin> set (accessOrder (set_all \<lparr> cache = [], maxSize = 10000, accessOrder = [] \<rparr>
                                      (map test_pair [0..<Suc 10000])))) \<and>
   imageCache = \<lparr> cache = [], maxSize = 10000, accessOrder = [] \<rparr> \<and> test_key 0 = '''' \<and>
   set_entry \<lparr> cache = [], maxSize = 2, accessOrder = [] \<rparr> '''' ''1'' =
     \<lparr> cache = [('''', ''1'')], maxSize = 2, accessOrder = [''''] \<rparr> \<and>
   set_entry \<lparr> cache = [('''', ''1'')], maxSize = 2, accessOrder = [''''] \<rparr> ''b'' ''2'' =
     \<lparr> cache = [('''', ''1''), (''b'', ''2'')], maxSize = 2, accessOrder = ['''', ''b''] \<rparr> \<and>
   set_entry \<lparr> cache = [('''', ''1''), (''b'', ''2'')], maxSize = 2, accessOrder = ['''', ''b''] \<rparr>
       ''c'' ''3'' =
     \<lparr> cache = [('''', ''1''), (''b'', ''2''), (''c'', ''3'')], maxSize = 2,
       accessOrder = [''b'', ''c''] \<rparr> \<and>
   getSize \<lparr> cache = [('''', ''1''), (''b'', ''2''), (''c'', ''3'')], maxSize = 2,
             accessOrder = [''b'', ''c''] \<rparr> = 3"
proof -
  have le: "(1::nat) \<le> 10000" by simp
  have small: "imageCache = \<lparr> cache = [], maxSize = 10000, accessOrder = [] \<rparr> \<and>
   test_key 0 = '''' \<and>
   set_entry \<lparr> cache = [], maxSize = 2, accessOrder = [] \<rparr> '''' ''1'' =
     \<lparr> cache = [('''', ''1'')], maxSize = 2, accessOrder = [''''] \<rparr> \<and>
   set_entry \<lparr> cache = [('''', ''1'')], maxSize = 2, accessOrder = [''''] \<rparr> ''b'' ''2'' =
     \<lparr> cache = [('''', ''1''), (''b'', ''2'')], maxSize = 2, accessOrder = ['''', ''b''] \<rparr> \<and>
   set_entry \<lparr> cache = [('''', ''1''), (''b'', ''2'')], maxSize = 2, accessOrder = ['''', ''b''] \<rparr>
       ''c'' ''3'' =
     \<lparr> cache = [('''', ''1''), (''b'', ''2''), (''c'', ''3'')], maxSize = 2,
       accessOrder = [''b'', ''c''] \<rparr> \<and>
   getSize \<lparr> cache = [('''', ''1''), (''b'', ''2''), (''c'', ''3'')], maxSize = 2,
             accessOrder = [''b'', ''c''] \<rparr> = 3"
    by (simp add: imageCache_def test_key_def set_entry_def Let_def Map_size_def Map_has_def
          Map_set_def Map_delete_def truthy_def updateAccessOrder_def getSize_def)
  show ?thesis
    by (rule conjI [OF overflow_props [OF le] small])
qed

subsection \<open>The round trip\<close>

lemma lru_empty_value_general:
  assumes "2 \<le> m"
  shows "\<not> has (set_all \<lparr> cache = [], maxSize = m, accessOrder = [] \<rparr>
                  (map test_pair_empty2 [1..<m + 2])) (test_key 1) \<and>
         fst (get (set_all \<lparr> cache = [], maxSize = m, accessOrder = [] \<rparr>
                     (map test_pair_empty2 [1..<m + 2])) (test_key 2)) = Some [] \<and>
         \<not> has (set_entry
                  (snd (get (set_all \<lparr> cache = [], maxSize = m, accessOrder = [] \<rparr>
                               (map test_pair_empty2 [1..<m + 2])) (test_key 2)))
                  (test_key (m + 2)) ''v'') (test_key 2) \<and>
         has (set_entry
                (snd (get (set_all \<lparr> cache = [], maxSize = m, accessOrder = [] \<rparr>
                             (map test_pair_empty2 [1..<m + 2])) (test_key 2)))
                (test_key (m + 2)) ''v'') (test_key 3)"
proof -
  let ?kv = "test_pair_empty2"
  let ?e = "\<lparr> cache = [], maxSize = m, accessOrder = [] \<rparr>"
  from assms have split: "[1..<m + 2] = 1 # 2 # [3..<m + 1] @ [m + 1]"
    by (simp add: upt_conv_Cons numeral_3_eq_3 numeral_2_eq_2)
  have dk: "distinct (map test_key (1 # 2 # [3..<m + 1] @ [m + 1, m + 2]))"
    by (rule distinct_test_keys) (use assms in auto)
  have fst_kv: "fst \<circ> ?kv = test_key" by (simp add: fun_eq_iff test_pair_empty2_def)
  have kv1: "?kv 1 = (test_key 1, ''v'')" and kv2: "?kv 2 = (test_key 2, [])"
    and kvl: "?kv (m + 1) = (test_key (m + 1), ''v'')"
    using assms by (simp_all add: test_pair_empty2_def)
  have d1: "distinct (map fst ((test_key 1, ''v'') # ((test_key 2, []) # map ?kv [3..<m + 1])
              @ [(test_key (m + 1), ''v'')]))"
    using dk by (simp add: fst_kv)
  have len1: "length ((test_key 2, []) # map ?kv [3..<m + 1]) + 1 = m"
    using assms by auto
  have k1: "test_key 1 \<noteq> []" by (simp add: test_key_Nil_iff)
  have c1: "set_all ?e (map ?kv [1..<m + 2]) =
        \<lparr> cache = (test_key 2, []) # map ?kv [3..<m + 1] @ [(test_key (m + 1), ''v'')],
          maxSize = m,
          accessOrder = test_key 2 # map test_key [3..<m + 1] @ [test_key (m + 1)] \<rparr>"
  proof -
    have "map ?kv [1..<m + 2] =
        (test_key 1, ''v'') # ((test_key 2, []) # map ?kv [3..<m + 1]) @ [(test_key (m + 1), ''v'')]"
      unfolding split by (simp only: list.map map_append kv1 kv2 kvl append_Cons)
    then show ?thesis
      using set_all_evicts_first [OF d1 len1 k1]
      by (simp only: map_append list.map fst_conv append_Cons map_map fst_kv)
  qed
  have g: "get \<lparr> cache = (test_key 2, []) # map ?kv [3..<m + 1] @ [(test_key (m + 1), ''v'')],
                  maxSize = m,
                  accessOrder = test_key 2 # map test_key [3..<m + 1] @ [test_key (m + 1)] \<rparr>
               (test_key 2) =
           (Some [], \<lparr> cache = (test_key 2, []) # map ?kv [3..<m + 1] @ [(test_key (m + 1), ''v'')],
                  maxSize = m,
                  accessOrder = test_key 2 # map test_key [3..<m + 1] @ [test_key (m + 1)] \<rparr>)"
    by (rule get_refresh_skipped) simp
  have d2: "distinct (map fst ((test_key 2, []) # (map ?kv [3..<m + 1] @ [(test_key (m + 1), ''v'')])))"
    using dk by (simp add: fst_kv)
  have keys: "fst ` set (map ?kv ns) = test_key ` set ns" for ns
    by (simp add: image_image test_pair_empty2_def)
  have new: "test_key (m + 2) \<notin>
      fst ` set ((test_key 2, []) # (map ?kv [3..<m + 1] @ [(test_key (m + 1), ''v'')]))"
    using assms keys [of "[3..<m + 1]"] by (auto simp: test_key_eq_iff)
  have len2: "m \<le> Suc (length (map ?kv [3..<m + 1] @ [(test_key (m + 1), ''v'')]))"
    using assms by auto
  have k2: "test_key 2 \<noteq> []" by (simp add: test_key_Nil_iff)
  note c3 = set_entry_evict [OF d2 new len2 k2,
      of "map test_key [3..<m + 1] @ [test_key (m + 1)]" "''v''"]
  have h1: "\<not> has (set_all ?e (map ?kv [1..<m + 2])) (test_key 1)"
    unfolding c1 has_def Map_has_iff ImageCacheManager.simps set_simps set_append image_insert
      image_Un keys
    using assms by (auto simp: test_key_eq_iff)
  have h2: "\<not> has \<lparr> cache = (map ?kv [3..<m + 1] @ [(test_key (m + 1), ''v'')])
                       @ [(test_key (m + 2), ''v'')],
       maxSize = m, accessOrder = ks \<rparr> (test_key 2)" for ks
    unfolding has_def Map_has_iff ImageCacheManager.simps set_simps set_append image_insert
      image_Un keys
    using assms by (auto simp: test_key_eq_iff)
  have h3: "has \<lparr> cache = (map ?kv [3..<m + 1] @ [(test_key (m + 1), ''v'')])
                     @ [(test_key (m + 2), ''v'')],
       maxSize = m, accessOrder = ks \<rparr> (test_key 3)" for ks
  proof -
    from assms have "3 \<in> set ([3..<m + 1] @ [m + 1])" by auto
    then have "test_key 3 \<in> test_key ` set ([3..<m + 1] @ [m + 1])" by (rule imageI)
    then show ?thesis
      unfolding has_def Map_has_iff ImageCacheManager.simps set_append image_Un keys
      by simp
  qed
  show ?thesis
    using h1 unfolding c1 g fst_conv snd_conv c3 using h2 h3 by simp
qed

text \<open>
  C4 fails on the code. On the exported cache of capacity 10000, with the empty string
  as the value of the second of 10002 distinct keys, none of them empty: the first
  10001 \<open>set\<close> calls drop the first key, \<open>get\<close> on the second key returns its value
  and leaves \<open>accessOrder\<close> as it is, and the last \<open>set\<close> drops the second key and
  keeps the third. The same with capacity 2 and the keys \<open>a\<close>, \<open>b\<close>, \<open>c\<close>, \<open>d\<close>.
\<close>

theorem lru_empty_value_not_refreshed:
  "(\<not> has (set_all \<lparr> cache = [], maxSize = 10000, accessOrder = [] \<rparr>
              (map test_pair_empty2 [1..<10000 + 2])) (test_key 1) \<and>
    fst (get (set_all \<lparr> cache = [], maxSize = 10000, accessOrder = [] \<rparr>
                (map test_pair_empty2 [1..<10000 + 2])) (test_key 2)) = Some [] \<and>
    \<not> has (set_entry
             (snd (get (set_all \<lparr> cache = [], maxSize = 10000, accessOrder = [] \<rparr>
                          (map test_pair_empty2 [1..<10000 + 2])) (test_key 2)))
             (test_key (10000 + 2)) ''v'') (test_key 2) \<and>
    has (set_entry
           (snd (get (set_all \<lparr> cache = [], maxSize = 10000, accessOrder = [] \<rparr>
                        (map test_pair_empty2 [1..<10000 + 2])) (test_key 2)))
           (test_key (10000 + 2)) ''v'') (test_key 3)) \<and>
   imageCache = \<lparr> cache = [], maxSize = 10000, accessOrder = [] \<rparr> \<and>
   set_all \<lparr> cache = [], maxSize = 2, accessOrder = [] \<rparr>
       [(''a'', ''1''), (''b'', ''''), (''c'', ''3'')] =
     \<lparr> cache = [(''b'', ''''), (''c'', ''3'')], maxSize = 2, accessOrder = [''b'', ''c''] \<rparr> \<and>
   get \<lparr> cache = [(''b'', ''''), (''c'', ''3'')], maxSize = 2, accessOrder = [''b'', ''c''] \<rparr>
       ''b'' =
     (Some '''',
      \<lparr> cache = [(''b'', ''''), (''c'', ''3'')], maxSize = 2, accessOrder = [''b'', ''c''] \<rparr>) \<and>
   set_entry \<lparr> cache = [(''b'', ''''), (''c'', ''3'')], maxSize = 2, accessOrder = [''b'', ''c''] \<rparr>
       ''d'' ''4'' =
     \<lparr> cache = [(''c'', ''3''), (''d'', ''4'')], maxSize = 2, accessOrder = [''c'', ''d''] \<rparr> \<and>
   \<not> has \<lparr> cache = [(''c'', ''3''), (''d'', ''4'')], maxSize = 2, accessOrder = [''c'', ''d''] \<rparr>
       ''b'' \<and>
   has \<lparr> cache = [(''c'', ''3''), (''d'', ''4'')], maxSize = 2, accessOrder = [''c'', ''d''] \<rparr>
       ''c''"
proof -
  have le: "(2::nat) \<le> 10000" by simp
  have small: "imageCache = \<lparr> cache = [], maxSize = 10000, accessOrder = [] \<rparr> \<and>
   set_all \<lparr> cache = [], maxSize = 2, accessOrder = [] \<rparr>
       [(''a'', ''1''), (''b'', ''''), (''c'', ''3'')] =
     \<lparr> cache = [(''b'', ''''), (''c'', ''3'')], maxSize = 2, accessOrder = [''b'', ''c''] \<rparr> \<and>
   get \<lparr> cache = [(''b'', ''''), (''c'', ''3'')], maxSize = 2, accessOrder = [''b'', ''c''] \<rparr>
       ''b'' =
     (Some '''',
      \<lparr> cache = [(''b'', ''''), (''c'', ''3'')], maxSize = 2, accessOrder = [''b'', ''c''] \<rparr>) \<and>
   set_entry \<lparr> cache = [(''b'', ''''), (''c'', ''3'')], maxSize = 2, accessOrder = [''b'', ''c''] \<rparr>
       ''d'' ''4'' =
     \<lparr> cache = [(''c'', ''3''), (''d'', ''4'')], maxSize = 2, accessOrder = [''c'', ''d''] \<rparr> \<and>
   \<not> has \<lparr> cache = [(''c'', ''3''), (''d'', ''4'')], maxSize = 2, accessOrder = [''c'', ''d''] \<rparr>
       ''b'' \<and>
   has \<lparr> cache = [(''c'', ''3''), (''d'', ''4'')], maxSize = 2, accessOrder = [''c'', ''d''] \<rparr>
       ''c''"
    by (simp add: imageCache_def set_all_def set_entry_def get_def Let_def Map_size_def
          Map_has_def Map_set_def Map_get_def Map_delete_def truthy_def updateAccessOrder_def
          has_def)
  show ?thesis
    by (rule conjI [OF lru_empty_value_general [OF le] small])
qed

text \<open>
  The round trip as the specification states it, for keys \<open>k1\<close>, \<open>k3\<close> and a value of
  \<open>k2\<close> other than the empty string: after one \<open>set\<close> more than the cache holds,
  exactly the first key is gone; after \<open>get\<close> on the second key and one more
  \<open>set\<close>, exactly the third key is gone as well.
\<close>

theorem lru_round_trip_nonempty:
  assumes "distinct (k1 # k2 # k3 # map fst rest @ [k])" "m = length rest + 2"
    and "k1 \<noteq> []" "k3 \<noteq> []" "v2 \<noteq> []"
  shows "let c1 = set_all \<lparr> cache = [], maxSize = m, accessOrder = [] \<rparr>
                    ((k1, v1) # (k2, v2) # (k3, v3) # rest);
             (r, c2) = get c1 k2;
             c3 = set_entry c2 k v
         in (\<forall>j. has c1 j \<longleftrightarrow> j \<in> set (k2 # k3 # map fst rest)) \<and> r = Some v2 \<and>
            (\<forall>j. has c3 j \<longleftrightarrow> j \<in> set (k2 # map fst rest @ [k]))"
proof -
  let ?e = "\<lparr> cache = [], maxSize = m, accessOrder = [] \<rparr>"
  have c1: "set_all ?e ((k1, v1) # (k2, v2) # (k3, v3) # rest) =
      \<lparr> cache = (k2, v2) # (k3, v3) # rest, maxSize = m,
        accessOrder = map fst ((k2, v2) # (k3, v3) # rest) \<rparr>"
    using assms by (intro set_all_evicts_oldest) auto
  have g: "get \<lparr> cache = (k2, v2) # (k3, v3) # rest, maxSize = m,
                 accessOrder = map fst ((k2, v2) # (k3, v3) # rest) \<rparr> k2 =
      (Some v2, \<lparr> cache = (k2, v2) # (k3, v3) # rest, maxSize = m,
                  accessOrder = k3 # map fst rest @ [k2] \<rparr>)"
    using assms(5) by (simp add: get_refresh)
  have k3: "k3 \<notin> fst ` set rest" "k2 \<noteq> k3" "k \<notin> fst ` set rest" "k \<noteq> k2" "k \<noteq> k3"
    "k2 \<notin> fst ` set rest"
    using assms(1) by auto
  have c3: "set_entry \<lparr> cache = (k2, v2) # (k3, v3) # rest, maxSize = m,
                  accessOrder = k3 # map fst rest @ [k2] \<rparr> k v =
      \<lparr> cache = (k2, v2) # rest @ [(k, v)], maxSize = m,
        accessOrder = map fst rest @ [k2, k] \<rparr>"
    using k3 assms(2,4)
    by (simp add: set_entry_def Let_def Map_size_def Map_has_iff Map_set_def Map_delete_def
          truthy_def updateAccessOrder_def update_new AList.delete_simps)
  show ?thesis
    unfolding Let_def c1 g prod.case c3
    by (auto simp: has_def Map_has_iff)
qed

theorem lru_round_trip_nonempty_example:
  "let c1 = set_all \<lparr> cache = [], maxSize = 2, accessOrder = [] \<rparr>
              [(''a'', ''1''), (''b'', ''2''), (''c'', ''3'')];
       (r, c2) = get c1 ''b'';
       c3 = set_entry c2 ''d'' ''4''
   in \<not> has c1 ''a'' \<and> has c1 ''b'' \<and> has c1 ''c'' \<and> r = Some ''2'' \<and>
      has c3 ''b'' \<and> \<not> has c3 ''c'' \<and> has c3 ''d''"
  using lru_round_trip_nonempty [of "''a''" "''b''" "''c''" "[]" "''d''" 2 "''2''" "''1''" "''3''" "''4''"]
  by (simp add: Let_def split_beta)

end
